theory Spec2Isabelle
  imports Complex_Main "HOL-Library.Sublist"
begin

section \<open>JavaScript strings and values\<close>

text \<open>
  A JavaScript string is modelled as a \<^typ>\<open>string\<close>: one \<^typ>\<open>char\<close> stands for one
  code unit of the string (the code units below 256). The stream decoder works on the text
  that \<^verbatim>\<open>TextDecoder.decode(value, {stream: true})\<close> hands over for each network chunk.
\<close>

definition nl :: char where
  "nl = CHR 0x0A"

definition cr :: char where
  "cr = CHR 0x0D"

text \<open>The white space and line terminators removed by \<^verbatim>\<open>String.prototype.trim\<close>.\<close>

definition is_space :: "char \<Rightarrow> bool" where
  "is_space c = (c \<in> set [CHR 0x09, CHR 0x0A, CHR 0x0B, CHR 0x0C, CHR 0x0D, CHR 0x20, CHR 0xA0])"

definition trim :: "string \<Rightarrow> string" where
  "trim s = rev (dropWhile is_space (rev (dropWhile is_space s)))"

text \<open>\<^verbatim>\<open>if (line.endsWith("\r")) line = line.slice(0, -1)\<close>\<close>

definition strip_cr :: "string \<Rightarrow> string" where
  "strip_cr s = (if s \<noteq> [] \<and> last s = cr then butlast s else s)"

text \<open>\<^verbatim>\<open>s.split("\n")\<close>: the pieces between the newlines, at least one piece.\<close>

fun split_nl :: "string \<Rightarrow> string list" where
  "split_nl [] = [[]]"
| "split_nl (c # cs) =
     (if c = nl then [] # split_nl cs
      else (case split_nl cs of [] \<Rightarrow> [[c]] | l # ls \<Rightarrow> (c # l) # ls))"

text \<open>
  The values \<^verbatim>\<open>JSON.parse\<close> returns. \<^verbatim>\<open>undefined\<close> is \<open>None\<close> of an option.
  An object is the list of its properties; a property is read with \<^const>\<open>map_of\<close>.
\<close>

datatype json =
    JNull
  | JBool bool
  | JNumber rat
  | JString string
  | JArray "json list"
  | JObject "(string \<times> json) list"

text \<open>Reading the property \<open>name\<close> of a value that is neither \<^verbatim>\<open>null\<close> nor \<^verbatim>\<open>undefined\<close>.\<close>

fun get_prop :: "string \<Rightarrow> json \<Rightarrow> json option" where
  "get_prop name (JObject kvs) = map_of kvs name"
| "get_prop name _ = None"

text \<open>Reading the element \<^verbatim>\<open>[0]\<close> of such a value.\<close>

fun get_index0 :: "json \<Rightarrow> json option" where
  "get_index0 (JArray []) = None"
| "get_index0 (JArray (x # xs)) = Some x"
| "get_index0 (JObject kvs) = map_of kvs ''0''"
| "get_index0 (JString []) = None"
| "get_index0 (JString (c # cs)) = Some (JString [c])"
| "get_index0 _ = None"

text \<open>Optional chaining \<^verbatim>\<open>x?.p\<close>: \<^verbatim>\<open>undefined\<close> when \<open>x\<close> is \<^verbatim>\<open>null\<close> or \<^verbatim>\<open>undefined\<close>.\<close>

fun opt_chain :: "(json \<Rightarrow> json option) \<Rightarrow> json option \<Rightarrow> json option" where
  "opt_chain f None = None"
| "opt_chain f (Some JNull) = None"
| "opt_chain f (Some v) = f v"

text \<open>
  \<^verbatim>\<open>parsed.choices?.[0]?.delta?.content\<close>. The first access is not optional: it throws a
  TypeError on \<^verbatim>\<open>null\<close>, which is the outer \<open>None\<close>.
\<close>

definition delta_content :: "json \<Rightarrow> json option option" where
  "delta_content parsed =
     (if parsed = JNull then None
      else Some (opt_chain (get_prop ''content'')
                  (opt_chain (get_prop ''delta'')
                    (opt_chain get_index0 (get_prop ''choices'' parsed)))))"

text \<open>The truth value of \<^verbatim>\<open>if (content)\<close>.\<close>

fun truthy :: "json \<Rightarrow> bool" where
  "truthy JNull = False"
| "truthy (JBool b) = b"
| "truthy (JNumber n) = (n \<noteq> 0)"
| "truthy (JString s) = (s \<noteq> [])"
| "truthy (JArray xs) = True"
| "truthy (JObject kvs) = True"

section \<open>The stream decoder (streamChat)\<close>

text \<open>
  What the body of the line loop does with one line, after the trailing carriage return is
  stripped. The reading loop and the final flush run the same tests in the same order
  (lines 58 to 70 and 83 to 90 of the source); they differ in what they do with the
  termination token and with a parse failure. \<open>P\<close> is \<^verbatim>\<open>JSON.parse\<close>, \<open>None\<close> when it throws.
\<close>

datatype line_result = LSkip | LDone | LFail | LNoDelta | LDelta json

definition decode_line :: "(string \<Rightarrow> json option) \<Rightarrow> string \<Rightarrow> line_result" where
  "decode_line P line =
     (if prefix '':'' line \<or> trim line = [] then LSkip
      else if \<not> prefix ''data: '' line then LSkip
      else let jsonStr = trim (drop 6 line) in
        if jsonStr = ''[DONE]'' then LDone
        else (case P jsonStr of
                None \<Rightarrow> LFail
              | Some parsed \<Rightarrow>
                  (case delta_content parsed of
                     None \<Rightarrow> LFail
                   | Some None \<Rightarrow> LNoDelta
                   | Some (Some content) \<Rightarrow>
                       if truthy content then LDelta content else LNoDelta)))"

text \<open>
  The inner loop \<^verbatim>\<open>while ((newlineIndex = textBuffer.indexOf("\n")) !== -1)\<close>. It returns
  the deltas handed to \<^verbatim>\<open>onDelta\<close>, the text buffer it leaves, and \<^verbatim>\<open>streamDone\<close>.
\<close>

function drain :: "(string \<Rightarrow> json option) \<Rightarrow> string \<Rightarrow> json list \<times> string \<times> bool" where
  "drain P buf =
     (if nl \<notin> set buf then ([], buf, False)
      else
        let raw = takeWhile (\<lambda>c. c \<noteq> nl) buf;
            rest = drop (length raw + 1) buf;
            line = strip_cr raw
        in (case decode_line P line of
              LSkip \<Rightarrow> drain P rest
            | LDone \<Rightarrow> ([], rest, True)
            | LFail \<Rightarrow> ([], line @ [nl] @ rest, False)
            | LNoDelta \<Rightarrow> drain P rest
            | LDelta content \<Rightarrow>
                (case drain P rest of (ds, buf', sd) \<Rightarrow> (content # ds, buf', sd))))"
  by pat_completeness auto
termination
  by (relation "measure (\<lambda>(P, buf). length buf)") (auto dest!: length_pos_if_in_set)

declare drain.simps [simp del]

text \<open>
  What \<^verbatim>\<open>reader.read()\<close> yields: a chunk of text, or a transport failure (the promise
  rejects). The end of the list is \<^verbatim>\<open>{done: true}\<close>.
\<close>

datatype read_event = Chunk string | ReadError

text \<open>
  The outer loop \<^verbatim>\<open>while (!streamDone)\<close>: the deltas delivered, and the buffer left for
  the final flush (\<open>None\<close> when a read threw).
\<close>

fun read_loop :: "(string \<Rightarrow> json option) \<Rightarrow> string \<Rightarrow> read_event list \<Rightarrow> json list \<times> string option" where
  "read_loop P buf [] = ([], Some buf)"
| "read_loop P buf (ReadError # es) = ([], None)"
| "read_loop P buf (Chunk c # es) =
     (case drain P (buf @ c) of
        (ds, buf', sd) \<Rightarrow>
          if sd then (ds, Some buf')
          else (case read_loop P buf' es of (ds', r) \<Rightarrow> (ds @ ds', r)))"

text \<open>The final flush (lines 79 to 95).\<close>

definition flush_line :: "(string \<Rightarrow> json option) \<Rightarrow> string \<Rightarrow> json list" where
  "flush_line P raw =
     (if raw = [] then []
      else (case decode_line P (strip_cr raw) of LDelta content \<Rightarrow> [content] | _ \<Rightarrow> []))"

definition flush :: "(string \<Rightarrow> json option) \<Rightarrow> string \<Rightarrow> json list" where
  "flush P textBuffer =
     (if trim textBuffer = [] then []
      else concat (map (flush_line P) (split_nl textBuffer)))"

text \<open>The callbacks \<^verbatim>\<open>streamChat\<close> invokes, in order of invocation.\<close>

datatype callback = OnDelta json | OnDone | OnError json

fun digit_char :: "nat \<Rightarrow> char" where
  "digit_char n = char_of (48 + n)"

fun show_nat :: "nat \<Rightarrow> string" where
  "show_nat n = (if n < 10 then [digit_char n] else show_nat (n div 10) @ [digit_char (n mod 10)])"

declare show_nat.simps [simp del]

text \<open>
  The response of the proxy as \<^verbatim>\<open>streamChat\<close> sees it: \<open>resp_json\<close> is what
  \<^verbatim>\<open>resp.json()\<close> resolves to (\<open>None\<close> when it rejects), \<open>resp_body\<close> the reads of the body
  (\<open>None\<close> when there is no body).
\<close>

record chat_response =
  resp_ok :: bool
  resp_status :: nat
  resp_json :: "json option"
  resp_body :: "read_event list option"

datatype fetch_outcome = FetchThrows | FetchReturns chat_response

definition connection_error :: json where
  "connection_error = JString ''Connection error. Please try again.''"

definition streamChat :: "(string \<Rightarrow> json option) \<Rightarrow> fetch_outcome \<Rightarrow> callback list" where
  "streamChat P outcome =
     (case outcome of
        FetchThrows \<Rightarrow> [OnError connection_error]
      | FetchReturns resp \<Rightarrow>
          if \<not> resp_ok resp then
            (let errorData = (case resp_json resp of
                                None \<Rightarrow> JObject [(''error'', JString ''Request failed'')]
                              | Some j \<Rightarrow> j)
             in if errorData = JNull then [OnError connection_error]
                else (case get_prop ''error'' errorData of
                        None \<Rightarrow> [OnError (JString (''Error: '' @ show_nat (resp_status resp)))]
                      | Some e \<Rightarrow>
                          if truthy e then [OnError e]
                          else [OnError (JString (''Error: '' @ show_nat (resp_status resp)))]))
          else (case resp_body resp of
                  None \<Rightarrow> [OnError (JString ''No response body received'')]
                | Some events \<Rightarrow>
                    (case read_loop P [] events of
                       (ds, None) \<Rightarrow> map OnDelta ds @ [OnError connection_error]
                     | (ds, Some textBuffer) \<Rightarrow>
                         map OnDelta (ds @ flush P textBuffer) @ [OnDone])))"

text \<open>
  A proxy response with status 2xx whose body yields the given reads, the deltas among the
  callbacks of a run, and the reads before the first transport failure.
\<close>

definition sse_response :: "read_event list \<Rightarrow> fetch_outcome" where
  "sse_response events =
     FetchReturns \<lparr>resp_ok = True, resp_status = 200, resp_json = None, resp_body = Some events\<rparr>"

fun deltas_of :: "callback list \<Rightarrow> json list" where
  "deltas_of [] = []"
| "deltas_of (OnDelta d # cbs) = d # deltas_of cbs"
| "deltas_of (OnDone # cbs) = deltas_of cbs"
| "deltas_of (OnError e # cbs) = deltas_of cbs"

fun chunks_read :: "read_event list \<Rightarrow> string list" where
  "chunks_read [] = []"
| "chunks_read (ReadError # es) = []"
| "chunks_read (Chunk c # es) = c # chunks_read es"

text \<open>
  The reference reading of a whole text, line by line: every line of the text handed to
  \<^const>\<open>decode_line\<close>, the deltas collected in order.
\<close>

definition line_deltas :: "line_result \<Rightarrow> json list" where
  "line_deltas r = (case r of LDelta content \<Rightarrow> [content] | _ \<Rightarrow> [])"

definition flush_all :: "(string \<Rightarrow> json option) \<Rightarrow> string \<Rightarrow> json list" where
  "flush_all P text = concat (map (\<lambda>l. line_deltas (decode_line P (strip_cr l))) (split_nl text))"

definition has_done :: "(string \<Rightarrow> json option) \<Rightarrow> string \<Rightarrow> bool" where
  "has_done P text = (\<exists>l \<in> set (split_nl text). decode_line P (strip_cr l) = LDone)"




text \<open>
  The record the gateway streams for one fragment of the answer, as text and as the value
  \<^verbatim>\<open>JSON.parse\<close> makes of it.
\<close>

definition delta_payload :: "string \<Rightarrow> string" where
  \<open>delta_payload s = ''{"choices":[{"delta":{"content":"'' @ s @ ''"}}]}''\<close>

definition delta_record :: "string \<Rightarrow> json" where
  "delta_record s =
     JObject [(''choices'', JArray [JObject [(''delta'', JObject [(''content'', JString s)])]])]"

text \<open>
  A stand-in for \<^verbatim>\<open>JSON.parse\<close> in the closed examples: it accepts the records above
  whose fragment is made of letters, digits and blanks, where it agrees with \<^verbatim>\<open>JSON.parse\<close>, and
  it throws on every other text. The theorems hold for every parser \<open>P\<close>.
\<close>

definition plain_char :: "char \<Rightarrow> bool" where
  "plain_char c =
     (c \<in> set ''abcdefghijklmnopqrstuvwxyzABCDEFGHIJKLMNOPQRSTUVWXYZ0123456789 '')"

definition sample_parse :: "string \<Rightarrow> json option" where
  \<open>sample_parse t =
     (let pre = ''{"choices":[{"delta":{"content":"''; suf = ''"}}]}'';
          mid = take (length t - length pre - length suf) (drop (length pre) t)
      in if t = pre @ mid @ suf \<and> list_all plain_char mid then Some (delta_record mid) else None)\<close>

section \<open>The document fetcher (fetchGoogleDocContent)\<close>

text \<open>
  \<^verbatim>\<open>new URL(url)\<close> is the platform's parser; it is a parameter \<open>U\<close> of the model, \<open>None\<close>
  when it throws. Of the parsed URL the code reads the protocol and the host name.
\<close>

record url =
  protocol :: string
  hostname :: string

definition allowedHosts :: "string list" where
  "allowedHosts = [''docs.google.com'', ''drive.google.com'']"

definition isValidGoogleDocsUrl :: "(string \<Rightarrow> url option) \<Rightarrow> string \<Rightarrow> bool" where
  "isValidGoogleDocsUrl U u =
     (case U u of
        None \<Rightarrow> False
      | Some parsed \<Rightarrow> hostname parsed \<in> set allowedHosts \<and> protocol parsed = ''https:'')"

text \<open>The character class \<^verbatim>\<open>[a-zA-Z0-9_-]\<close>.\<close>

definition id_char :: "char \<Rightarrow> bool" where
  "id_char c =
     (c \<in> set ''abcdefghijklmnopqrstuvwxyzABCDEFGHIJKLMNOPQRSTUVWXYZ0123456789_-'')"

text \<open>
  \<^verbatim>\<open>url.match(/lit([a-zA-Z0-9_-]+)/)\<close>: the leftmost place where the literal is followed by
  a character of the class; the group is the longest run of the class there.
\<close>

fun match_after :: "string \<Rightarrow> string \<Rightarrow> string option" where
  "match_after lit [] = None"
| "match_after lit (c # cs) =
     (if prefix lit (c # cs) \<and> takeWhile id_char (drop (length lit) (c # cs)) \<noteq> []
      then Some (takeWhile id_char (drop (length lit) (c # cs)))
      else match_after lit cs)"

text \<open>\<^verbatim>\<open>url.match(/^([a-zA-Z0-9_-]+)$/)\<close>\<close>

definition match_bare :: "string \<Rightarrow> string option" where
  "match_bare s = (if s \<noteq> [] \<and> list_all id_char s then Some s else None)"

definition patterns :: "(string \<Rightarrow> string option) list" where
  "patterns = [match_after ''/document/d/'', match_after ''id='', match_bare]"

text \<open>The loop over the patterns, which breaks at the first match.\<close>

fun first_match :: "(string \<Rightarrow> string option) list \<Rightarrow> string \<Rightarrow> string option" where
  "first_match [] u = None"
| "first_match (pattern # ps) u =
     (case pattern u of Some docId \<Rightarrow> Some docId | None \<Rightarrow> first_match ps u)"

definition MAX_DOCUMENT_SIZE :: nat where
  "MAX_DOCUMENT_SIZE = 5 * 1024 * 1024"

text \<open>
  \<^verbatim>\<open>parseInt(s, 10)\<close>: leading white space, an optional sign, then the longest run of
  decimal digits; \<open>None\<close> is NaN.
\<close>

definition is_digit :: "char \<Rightarrow> bool" where
  "is_digit c = (c \<in> set ''0123456789'')"

definition digits_value :: "string \<Rightarrow> nat" where
  "digits_value ds = foldl (\<lambda>a c. 10 * a + (of_char c - 48)) 0 ds"

definition parseInt10 :: "string \<Rightarrow> int option" where
  "parseInt10 s =
     (let t = dropWhile is_space s;
          neg = (t \<noteq> [] \<and> hd t = CHR ''-'');
          u = (if t \<noteq> [] \<and> (hd t = CHR ''-'' \<or> hd t = CHR ''+'') then tl t else t);
          ds = takeWhile is_digit u
      in if ds = [] then None
         else Some (if neg then - int (digits_value ds) else int (digits_value ds)))"

text \<open>
  What the fetch of the export URL comes to: the timeout aborts it, it rejects with some
  other error (of the given message), or it resolves with a response.
\<close>

record doc_response =
  doc_status :: nat
  doc_content_length :: "string option"
  doc_text :: string

datatype doc_fetch = DocAbort | DocThrows string | DocResponse doc_response

text \<open>The errors \<^verbatim>\<open>fetchGoogleDocContent\<close> throws, and the message of each.\<close>

datatype fetch_error =
    InvalidDocumentFormat
  | DocumentNotFound
  | DocumentPrivate
  | FetchFailed nat
  | DocumentTooLarge
  | EmptyDocument
  | FetchTimeout
  | FetchThrown string

fun error_message :: "fetch_error \<Rightarrow> string" where
  "error_message InvalidDocumentFormat = ''Invalid Google Doc URL format''"
| "error_message DocumentNotFound = ''Document not found. Please check the URL.''"
| "error_message DocumentPrivate = ''Document is private. Please make it publicly accessible.''"
| "error_message (FetchFailed st) = ''Failed to fetch document: '' @ show_nat st"
| "error_message DocumentTooLarge = ''Document is too large to process.''"
| "error_message EmptyDocument = ''The document does not contain any usable information.''"
| "error_message FetchTimeout = ''Document fetch timed out. Please try again.''"
| "error_message (FetchThrown m) = m"

text \<open>\<^verbatim>\<open>response.ok\<close>\<close>

definition response_ok :: "nat \<Rightarrow> bool" where
  "response_ok st = (200 \<le> st \<and> st \<le> 299)"

record message =
  msg_role :: string
  msg_content :: string

text \<open>The outbound operations of a request, in the order they happen.\<close>

datatype effect = DocFetch string | DocReadBody | ModelCall "message list"

definition exportUrl :: "string \<Rightarrow> string" where
  "exportUrl docId = ''https://docs.google.com/document/d/'' @ docId @ ''/export?format=txt''"

definition fetchGoogleDocContent ::
    "(string \<Rightarrow> doc_fetch) \<Rightarrow> string \<Rightarrow> effect list \<times> (fetch_error + string)" where
  "fetchGoogleDocContent fetch u =
     (case first_match patterns u of
        None \<Rightarrow> ([], Inl InvalidDocumentFormat)
      | Some docId \<Rightarrow>
          if docId = [] then ([], Inl InvalidDocumentFormat)
          else (case fetch (exportUrl docId) of
                  DocAbort \<Rightarrow> ([DocFetch (exportUrl docId)], Inl FetchTimeout)
                | DocThrows m \<Rightarrow> ([DocFetch (exportUrl docId)], Inl (FetchThrown m))
                | DocResponse response \<Rightarrow>
                    if \<not> response_ok (doc_status response) then
                      ([DocFetch (exportUrl docId)],
                       Inl (if doc_status response = 404 then DocumentNotFound
                            else if doc_status response = 403 then DocumentPrivate
                            else FetchFailed (doc_status response)))
                    else if (case doc_content_length response of
                               None \<Rightarrow> False
                             | Some contentLength \<Rightarrow>
                                 contentLength \<noteq> [] \<and>
                                 (case parseInt10 contentLength of
                                    None \<Rightarrow> False
                                  | Some n \<Rightarrow> n > int MAX_DOCUMENT_SIZE))
                    then ([DocFetch (exportUrl docId)], Inl DocumentTooLarge)
                    else
                      let content = doc_text response in
                      if length content > MAX_DOCUMENT_SIZE
                      then ([DocFetch (exportUrl docId), DocReadBody], Inl DocumentTooLarge)
                      else if content = [] \<or> length (trim content) = 0
                      then ([DocFetch (exportUrl docId), DocReadBody], Inl EmptyDocument)
                      else ([DocFetch (exportUrl docId), DocReadBody], Inr content)))"

text \<open>
  The size in bytes of a text on the wire, in UTF-8: one byte for a code unit below 128,
  two bytes for the other code units below 256.
\<close>

definition utf8_size :: "string \<Rightarrow> nat" where
  "utf8_size t = sum_list (map (\<lambda>c. if (of_char c :: nat) < 128 then 1 else 2) t)"

section \<open>The proxy (serve)\<close>

definition SYSTEM_PROMPT :: string where
  \<open>SYSTEM_PROMPT = concat
    [''You are an AI-powered document assistant that answers user questions strictly based on the content retrieved from a Google Document.'', [nl],
     [nl],
     ''CORE RULES:'', [nl],
     ''1. Use ONLY the provided document context when answering.'', [nl],
     ''2. If the answer is not present in the document, respond exactly with: "This info isn'', [CHR 0x27], ''t in the document."'', [nl],
     ''3. NEVER use external knowledge or assumptions.'', [nl],
     ''4. Always provide concise, professional answers.'', [nl],
     [nl],
     ''CITATION REQUIREMENTS:'', [nl],
     ''- Every factual statement MUST include inline citations.'', [nl],
     ''- Use the format: (Section X.Y) or (Page X) based on document structure.'', [nl],
     ''- If multiple sections are used, cite all relevant sections.'', [nl],
     [nl],
     ''CONVERSATION HANDLING:'', [nl],
     ''- Maintain context from the conversation history provided.'', [nl],
     ''- If a user follow-up depends on prior context, resolve it correctly.'', [nl],
     ''- Do NOT repeat previous answers unless explicitly asked.'', [nl],
     [nl],
     ''QUERY CLARIFICATION:'', [nl],
     ''- If the user query is ambiguous or underspecified, ask ONE short clarifying question before answering.'', [nl],
     [nl],
     ''EDGE CASE HANDLING:'', [nl],
     ''- If the document content is empty, respond: "The document does not contain any usable information."'', [nl],
     ''- If the document appears inaccessible, respond: "Please provide a publicly accessible Google Doc link."'', [nl],
     [nl],
     ''TONE & STYLE:'', [nl],
     ''- Neutral, professional, and business-friendly.'', [nl],
     ''- No emojis, no casual language.'', [nl],
     ''- Short paragraphs, clear formatting.'', [nl],
     [nl],
     ''OUTPUT FORMAT:'', [nl],
     ''- Plain text response.'', [nl],
     ''- Answer first, citations at the end of sentences.'', [nl],
     ''- No markdown unless explicitly requested.'']\<close>

text \<open>
  \<^verbatim>\<open>xs.slice(start)\<close>: a negative start counts from the end, and the start is clamped to
  the array.
\<close>

definition slice_from :: "int \<Rightarrow> 'a list \<Rightarrow> 'a list" where
  "slice_from start xs =
     (let len = int (length xs);
          k = (if start < 0 then max (len + start) 0 else min start len)
      in drop (nat k) xs)"

text \<open>
  The body of the request as \<^verbatim>\<open>req.json()\<close> gives it: a field that is absent is \<open>None\<close>.
  \<open>req_json\<close> is \<open>None\<close> when the body is not JSON.
\<close>

record request_body =
  question :: "string option"
  documentUrl :: "string option"
  conversationHistory :: "message list option"

record request =
  req_method :: string
  req_json :: "request_body option"

text \<open>The answer of the model gateway: the fetch rejects, or resolves with a response.\<close>

record upstream_response =
  up_status :: nat
  up_text :: string
  up_body :: "read_event list"

datatype model_outcome = ModelThrows | ModelResponse upstream_response

text \<open>What the handler finds around it: the environment variable and the network.\<close>

record env =
  LOVABLE_API_KEY :: "string option"
  new_URL :: "string \<Rightarrow> url option"
  fetch_doc :: "string \<Rightarrow> doc_fetch"
  fetch_model :: "message list \<Rightarrow> model_outcome"

datatype response_body = NoBody | ErrorBody string | StreamBody "read_event list"

record http_response =
  status :: nat
  content_type :: "string option"
  body :: response_body

text \<open>\<^verbatim>\<open>new Response(JSON.stringify({ error: msg }), { status: st, ... })\<close>\<close>

definition json_error :: "nat \<Rightarrow> string \<Rightarrow> http_response" where
  "json_error st msg = \<lparr>status = st, content_type = Some ''application/json'', body = ErrorBody msg\<rparr>"

text \<open>\<^verbatim>\<open>!s\<close> for a field that is a string when it is there.\<close>

definition falsy :: "string option \<Rightarrow> bool" where
  "falsy s = (case s of None \<Rightarrow> True | Some t \<Rightarrow> t = [])"

text \<open>The error responses, under the names the specification gives them.\<close>

definition MissingField :: http_response where
  "MissingField = json_error 400 ''Question and document URL are required''"

definition InvalidUrl :: http_response where
  "InvalidUrl = json_error 400 ''Invalid document URL. Please provide a valid Google Docs URL.''"

definition ServiceUnavailable :: http_response where
  "ServiceUnavailable = json_error 500 ''Service temporarily unavailable''"

definition RateLimited :: http_response where
  "RateLimited = json_error 429 ''Too many requests. Please try again later.''"

definition QuotaExceeded :: http_response where
  "QuotaExceeded = json_error 402 ''Service limit reached. Please try again later.''"

definition UpstreamError :: http_response where
  "UpstreamError = json_error 500 ''An error occurred processing your request''"

text \<open>Lines 347 to 358: the messages sent to the model.\<close>

definition build_messages :: "string \<Rightarrow> string \<Rightarrow> message list \<Rightarrow> message list" where
  "build_messages q documentContent history =
     (let recentHistory = slice_from (- 10) history
      in [\<lparr>msg_role = ''system'', msg_content = SYSTEM_PROMPT\<rparr>,
          \<lparr>msg_role = ''user'',
           msg_content = ''DOCUMENT CONTENT:'' @ [nl, nl] @ documentContent @ [nl, nl] @ ''---'' @
             [nl, nl] @ ''Please answer questions based ONLY on the above document content.''\<rparr>]
         @ recentHistory
         @ [\<lparr>msg_role = ''user'', msg_content = q\<rparr>])"

text \<open>
  The handler. It returns the response and the outbound operations it performed. An
  exception that reaches the outer \<^verbatim>\<open>catch\<close> gives the response \<^const>\<open>UpstreamError\<close>.
\<close>

definition serve :: "env \<Rightarrow> request \<Rightarrow> http_response \<times> effect list" where
  "serve e req =
     (if req_method req = ''OPTIONS'' then (\<lparr>status = 200, content_type = None, body = NoBody\<rparr>, [])
      else (case req_json req of
        None \<Rightarrow> (UpstreamError, [])
      | Some b \<Rightarrow>
          if falsy (question b) \<or> falsy (documentUrl b) then (MissingField, [])
          else
            let q = the (question b); u = the (documentUrl b) in
            if \<not> isValidGoogleDocsUrl (new_URL e) u then (InvalidUrl, [])
            else if falsy (LOVABLE_API_KEY e) then (ServiceUnavailable, [])
            else (case fetchGoogleDocContent (fetch_doc e) u of
                    (fx, Inl err) \<Rightarrow> (json_error 400 (error_message err), fx)
                  | (fx, Inr documentContent) \<Rightarrow>
                      (case conversationHistory b of
                         None \<Rightarrow> (UpstreamError, fx)
                       | Some history \<Rightarrow>
                           let messages = build_messages q documentContent history in
                           (case fetch_model e messages of
                              ModelThrows \<Rightarrow> (UpstreamError, fx @ [ModelCall messages])
                            | ModelResponse response \<Rightarrow>
                                if \<not> response_ok (up_status response) then
                                  (if up_status response = 429 then RateLimited
                                   else if up_status response = 402 then QuotaExceeded
                                   else UpstreamError,
                                   fx @ [ModelCall messages])
                                else
                                  (\<lparr>status = 200, content_type = Some ''text/event-stream'',
                                    body = StreamBody (up_body response)\<rparr>,
                                   fx @ [ModelCall messages]))))))"

text \<open>
  A stand-in for \<^verbatim>\<open>new URL\<close> in the closed examples: it reads the scheme and the host of
  \<^verbatim>\<open>https://host/...\<close> and \<^verbatim>\<open>http://host/...\<close> when the host is made of lower-case letters,
  digits, dots and hyphens, and throws on everything else. On the URLs of the examples it
  gives what the platform gives. The theorems hold for every parser \<open>U\<close>.
\<close>

definition host_char :: "char \<Rightarrow> bool" where
  "host_char c = (c \<in> set ''abcdefghijklmnopqrstuvwxyz0123456789.-'')"

definition sample_URL :: "string \<Rightarrow> url option" where
  "sample_URL s =
     (let scheme = (if prefix ''https://'' s then ''https:''
                    else if prefix ''http://'' s then ''http:'' else []);
          after = drop (length scheme + 2) s;
          host = takeWhile (\<lambda>c. c \<notin> set ''/?#'') after
      in if scheme \<noteq> [] \<and> host \<noteq> [] \<and> list_all host_char host
         then Some \<lparr>protocol = scheme, hostname = host\<rparr> else None)"

text \<open>The surroundings and the requests of the closed examples.\<close>

definition sample_env :: "doc_fetch \<Rightarrow> model_outcome \<Rightarrow> env" where
  "sample_env d m =
     \<lparr>LOVABLE_API_KEY = Some ''secret'', new_URL = sample_URL,
      fetch_doc = (\<lambda>x. d), fetch_model = (\<lambda>msgs. m)\<rparr>"

definition sample_request :: "string \<Rightarrow> string \<Rightarrow> message list \<Rightarrow> request" where
  "sample_request q u h =
     \<lparr>req_method = ''POST'',
      req_json = Some \<lparr>question = Some q, documentUrl = Some u, conversationHistory = Some h\<rparr>\<rparr>"

definition turn :: "string \<Rightarrow> string \<Rightarrow> message" where
  "turn r c = \<lparr>msg_role = r, msg_content = c\<rparr>"

definition sample_history :: "message list" where
  "sample_history =
     [turn ''user'' ''q1'', turn ''assistant'' ''a1'', turn ''user'' ''q2'', turn ''assistant'' ''a2'',
      turn ''user'' ''q3'', turn ''assistant'' ''a3'', turn ''user'' ''q4'', turn ''assistant'' ''a4'',
      turn ''user'' ''q5'', turn ''assistant'' ''a5'', turn ''user'' ''q6'', turn ''assistant'' ''a6'']"

definition sample_doc :: "nat \<Rightarrow> string option \<Rightarrow> string \<Rightarrow> doc_fetch" where
  "sample_doc st cl t = DocResponse \<lparr>doc_status = st, doc_content_length = cl, doc_text = t\<rparr>"

definition sample_model :: "nat \<Rightarrow> string \<Rightarrow> model_outcome" where
  "sample_model st t = ModelResponse \<lparr>up_status = st, up_text = t, up_body = []\<rparr>"

section \<open>Lines of a text\<close>

lemma split_nl_not_Nil [simp]: "split_nl s \<noteq> []"
  by (induction s) (auto split: list.splits)

lemma split_nl_no_nl: "nl \<notin> set raw \<Longrightarrow> split_nl raw = [raw]"
  by (induction raw) auto

lemma split_nl_append: "nl \<notin> set raw \<Longrightarrow> split_nl (raw @ nl # rest) = raw # split_nl rest"
  by (induction raw) auto

lemma split_nl_chars: "l \<in> set (split_nl s) \<Longrightarrow> set l \<subseteq> set s"
proof (induction s arbitrary: l)
  case Nil
  then show ?case by simp
next
  case (Cons c cs)
  show ?case
  proof (cases "c = nl")
    case True
    with Cons show ?thesis by auto
  next
    case False
    obtain a ls where sp: "split_nl cs = a # ls"
      by (cases "split_nl cs") auto
    with False Cons.prems have "l = c # a \<or> l \<in> set ls" by auto
    then show ?thesis
    proof
      assume "l = c # a"
      moreover have "set a \<subseteq> set cs" using Cons.IH [of a] sp by simp
      ultimately show ?thesis by auto
    next
      assume "l \<in> set ls"
      then have "set l \<subseteq> set cs" using Cons.IH [of l] sp by simp
      then show ?thesis by auto
    qed
  qed
qed

lemma buf_decompose:
  "nl \<in> set buf \<Longrightarrow>
   buf = takeWhile (\<lambda>c. c \<noteq> nl) buf @ nl # drop (length (takeWhile (\<lambda>c. c \<noteq> nl) buf) + 1) buf"
proof (induction buf)
  case Nil
  then show ?case by simp
next
  case (Cons c cs)
  then show ?case by (cases "c = nl") auto
qed

lemma raw_no_nl: "nl \<notin> set (takeWhile (\<lambda>c. c \<noteq> nl) buf)"
  by (auto dest: set_takeWhileD)

lemma strip_cr_no_nl: "nl \<notin> set raw \<Longrightarrow> nl \<notin> set (strip_cr raw)"
  by (auto simp: strip_cr_def dest: in_set_butlastD)

lemma all_dropWhile: "(\<forall>x \<in> set (dropWhile Q s). Q x) \<longleftrightarrow> (\<forall>x \<in> set s. Q x)"
proof
  assume a: "\<forall>x \<in> set (dropWhile Q s). Q x"
  have "dropWhile Q s = []"
  proof (rule ccontr)
    assume "dropWhile Q s \<noteq> []"
    then have "\<not> Q (hd (dropWhile Q s))" "hd (dropWhile Q s) \<in> set (dropWhile Q s)"
      by (auto simp: hd_dropWhile)
    with a show False by blast
  qed
  then show "\<forall>x \<in> set s. Q x" by simp
next
  assume "\<forall>x \<in> set s. Q x"
  then show "\<forall>x \<in> set (dropWhile Q s). Q x" by (auto dest: set_dropWhileD)
qed

lemma trim_Nil_iff: "trim s = [] \<longleftrightarrow> (\<forall>c \<in> set s. is_space c)"
  by (simp add: trim_def all_dropWhile)

lemma trim_snoc_space: "is_space c \<Longrightarrow> trim (xs @ [c]) = trim xs"
proof (cases "\<forall>x \<in> set xs. is_space x")
  case True
  assume "is_space c"
  with True have "trim (xs @ [c]) = []" "trim xs = []"
    by (simp_all add: trim_Nil_iff)
  then show ?thesis by simp
next
  case False
  assume "is_space c"
  from False obtain x where "x \<in> set xs" "\<not> is_space x" by blast
  then have "dropWhile is_space (xs @ [c]) = dropWhile is_space xs @ [c]"
    by (rule dropWhile_append1)
  with \<open>is_space c\<close> show ?thesis by (simp add: trim_def)
qed

lemma is_space_cr [simp]: "is_space cr"
  by (simp add: is_space_def cr_def)

lemma trim_drop_strip_cr: "trim (drop n (strip_cr l)) = trim (drop n l)"
proof (cases "l \<noteq> [] \<and> last l = cr")
  case False
  then show ?thesis by (auto simp: strip_cr_def)
next
  case True
  then obtain xs where l: "l = xs @ [cr]"
    by (metis append_butlast_last_id)
  show ?thesis
  proof (cases "n \<le> length xs")
    case True
    then show ?thesis by (simp add: l strip_cr_def trim_snoc_space)
  next
    case False
    then show ?thesis by (simp add: l strip_cr_def trim_def)
  qed
qed

lemma trim_strip_cr: "trim (strip_cr l) = trim l"
  using trim_drop_strip_cr [of 0 l] by simp

lemma prefix_strip_cr:
  "cr \<notin> set p \<Longrightarrow> prefix p (strip_cr l) = prefix p l"
proof (cases "l \<noteq> [] \<and> last l = cr")
  case False
  then show ?thesis by (auto simp: strip_cr_def)
next
  case True
  assume p: "cr \<notin> set p"
  from True obtain xs where l: "l = xs @ [cr]"
    by (metis append_butlast_last_id)
  have "prefix p (xs @ [cr]) \<longleftrightarrow> prefix p xs"
  proof
    assume "prefix p (xs @ [cr])"
    then have "prefix p xs \<or> p = xs @ [cr]"
      by auto
    with p show "prefix p xs" by auto
  next
    assume "prefix p xs"
    then show "prefix p (xs @ [cr])" by (rule prefix_prefix)
  qed
  then show ?thesis by (simp add: l strip_cr_def)
qed

lemma decode_line_strip_cr: "decode_line P (strip_cr l) = decode_line P l"
proof -
  have 1: "prefix '':'' (strip_cr l) = prefix '':'' l"
    by (rule prefix_strip_cr) (simp add: cr_def)
  have 2: "prefix ''data: '' (strip_cr l) = prefix ''data: '' l"
    by (rule prefix_strip_cr) (simp add: cr_def)
  show ?thesis
    unfolding decode_line_def 1 2 trim_strip_cr trim_drop_strip_cr ..
qed


lemma flush_line_eq: "flush_line P raw = line_deltas (decode_line P (strip_cr raw))"
proof (cases "raw = []")
  case True
  then show ?thesis
    by (simp add: flush_line_def line_deltas_def strip_cr_def decode_line_def trim_def)
next
  case False
  then show ?thesis
    by (simp add: flush_line_def line_deltas_def)
qed

lemma flush_all_line:
  "nl \<notin> set raw \<Longrightarrow>
   flush_all P (raw @ nl # rest) = line_deltas (decode_line P raw) @ flush_all P rest"
  by (simp add: flush_all_def split_nl_append decode_line_strip_cr)

lemma has_done_line:
  "nl \<notin> set raw \<Longrightarrow>
   has_done P (raw @ nl # rest) \<longleftrightarrow> decode_line P raw = LDone \<or> has_done P rest"
  by (simp add: has_done_def split_nl_append decode_line_strip_cr)

lemma flush_eq_flush_all: "flush P buf = flush_all P buf"
proof (cases "trim buf = []")
  case False
  have "flush_line P = (\<lambda>l. line_deltas (decode_line P (strip_cr l)))"
    by (rule ext) (rule flush_line_eq)
  with False show ?thesis
    by (simp add: flush_def flush_all_def)
next
  case True
  have "line_deltas (decode_line P (strip_cr l)) = []" if "l \<in> set (split_nl buf)" for l
  proof -
    from that True have "\<forall>c \<in> set l. is_space c"
      using split_nl_chars [of l buf] by (auto simp: trim_Nil_iff)
    then have "trim l = []" by (simp add: trim_Nil_iff)
    then have "decode_line P l = LSkip"
      by (simp add: decode_line_def)
    then show ?thesis
      by (simp add: decode_line_strip_cr line_deltas_def)
  qed
  then have "flush_all P buf = []"
    by (simp add: flush_all_def)
  with True show ?thesis by (simp add: flush_def)
qed

lemma drain_step:
  assumes "nl \<notin> set raw"
  shows "drain P (raw @ nl # rest) =
    (case decode_line P (strip_cr raw) of
       LSkip \<Rightarrow> drain P rest
     | LDone \<Rightarrow> ([], rest, True)
     | LFail \<Rightarrow> ([], strip_cr raw @ [nl] @ rest, False)
     | LNoDelta \<Rightarrow> drain P rest
     | LDelta content \<Rightarrow>
         (case drain P rest of (ds, buf', sd) \<Rightarrow> (content # ds, buf', sd)))"
proof -
  have tw: "takeWhile (\<lambda>c. c \<noteq> nl) (raw @ nl # rest) = raw"
    using assms by (induction raw) auto
  have dr: "drop (length raw + 1) (raw @ nl # rest) = rest"
    by simp
  show ?thesis
    apply (subst drain.simps)
    unfolding Let_def tw dr
    by simp
qed

lemma lines_induct [case_names no_nl line]:
  assumes base: "\<And>buf. nl \<notin> set buf \<Longrightarrow> Q buf"
    and step: "\<And>raw rest. nl \<notin> set raw \<Longrightarrow> Q rest \<Longrightarrow> Q (raw @ nl # rest)"
  shows "Q buf"
proof (induction buf rule: length_induct)
  case (1 buf)
  show ?case
  proof (cases "nl \<in> set buf")
    case False
    then show ?thesis by (rule base)
  next
    case True
    define raw where "raw = takeWhile (\<lambda>c. c \<noteq> nl) buf"
    define rest where "rest = drop (length raw + 1) buf"
    have buf: "buf = raw @ nl # rest"
      unfolding raw_def rest_def using True by (rule buf_decompose)
    have raw: "nl \<notin> set raw"
      unfolding raw_def by (rule raw_no_nl)
    have "length rest < length buf"
      using arg_cong [OF buf, of length] by simp
    with 1 have "Q rest" by blast
    with raw have "Q (raw @ nl # rest)" by (rule step)
    with buf show ?thesis by simp
  qed
qed

lemma drain_no_nl: "nl \<notin> set buf \<Longrightarrow> drain P buf = ([], buf, False)"
  by (simp add: drain.simps)

lemma drain_flush_all:
  "drain P buf = (ds, buf', sd) \<Longrightarrow> ds @ flush_all P (buf' @ s) = flush_all P (buf @ s)"
proof (induction buf arbitrary: ds buf' sd rule: lines_induct)
  case (no_nl buf)
  then show ?case by (simp add: drain_no_nl)
next
  case (line raw rest)
  have sraw: "nl \<notin> set (strip_cr raw)"
    using line.hyps by (rule strip_cr_no_nl)
  have whole: "flush_all P ((raw @ nl # rest) @ s) =
      line_deltas (decode_line P (strip_cr raw)) @ flush_all P (rest @ s)"
    using flush_all_line [OF line.hyps, of P "rest @ s"] by (simp add: decode_line_strip_cr)
  have pushed: "flush_all P ((strip_cr raw @ nl # rest) @ s) =
      line_deltas (decode_line P (strip_cr raw)) @ flush_all P (rest @ s)"
    using flush_all_line [OF sraw, of P "rest @ s"] by simp
  show ?case
  proof (cases "decode_line P (strip_cr raw)")
    case LSkip
    with line.prems have "drain P rest = (ds, buf', sd)"
      by (simp add: drain_step [OF line.hyps])
    then show ?thesis using line.IH whole LSkip by (simp add: line_deltas_def)
  next
    case LDone
    with line.prems have "ds = []" "buf' = rest"
      by (simp_all add: drain_step [OF line.hyps])
    then show ?thesis using whole LDone by (simp add: line_deltas_def)
  next
    case LFail
    with line.prems have "ds = []" "buf' = strip_cr raw @ nl # rest"
      by (simp_all add: drain_step [OF line.hyps])
    then show ?thesis using whole pushed by simp
  next
    case LNoDelta
    with line.prems have "drain P rest = (ds, buf', sd)"
      by (simp add: drain_step [OF line.hyps])
    then show ?thesis using line.IH whole LNoDelta by (simp add: line_deltas_def)
  next
    case (LDelta content)
    obtain ds0 b0 sd0 where d0: "drain P rest = (ds0, b0, sd0)"
      by (cases "drain P rest") auto
    with line.prems LDelta have eq: "ds = content # ds0" "buf' = b0" "sd = sd0"
      by (simp_all add: drain_step [OF line.hyps])
    from d0 have "ds0 @ flush_all P (b0 @ s) = flush_all P (rest @ s)"
      by (rule line.IH)
    with whole LDelta eq show ?thesis by (simp add: line_deltas_def)
  qed
qed

lemma drain_has_done:
  "drain P buf = (ds, buf', sd) \<Longrightarrow>
   (sd \<longrightarrow> has_done P (buf @ s)) \<and> (has_done P (buf' @ s) \<longrightarrow> has_done P (buf @ s))"
proof (induction buf arbitrary: ds buf' sd rule: lines_induct)
  case (no_nl buf)
  then show ?case by (simp add: drain_no_nl)
next
  case (line raw rest)
  have sraw: "nl \<notin> set (strip_cr raw)"
    using line.hyps by (rule strip_cr_no_nl)
  have whole: "has_done P ((raw @ nl # rest) @ s) \<longleftrightarrow>
      decode_line P (strip_cr raw) = LDone \<or> has_done P (rest @ s)"
    using has_done_line [OF line.hyps, of P "rest @ s"] by (simp add: decode_line_strip_cr)
  have pushed: "has_done P ((strip_cr raw @ nl # rest) @ s) \<longleftrightarrow>
      decode_line P (strip_cr raw) = LDone \<or> has_done P (rest @ s)"
    using has_done_line [OF sraw, of P "rest @ s"] by simp
  show ?case
  proof (cases "decode_line P (strip_cr raw)")
    case LSkip
    with line.prems have "drain P rest = (ds, buf', sd)"
      by (simp add: drain_step [OF line.hyps])
    then show ?thesis using line.IH whole by blast
  next
    case LDone
    then show ?thesis using whole by simp
  next
    case LFail
    with line.prems have "buf' = strip_cr raw @ nl # rest" "\<not> sd"
      by (simp_all add: drain_step [OF line.hyps])
    then show ?thesis using whole pushed by simp
  next
    case LNoDelta
    with line.prems have "drain P rest = (ds, buf', sd)"
      by (simp add: drain_step [OF line.hyps])
    then show ?thesis using line.IH whole by blast
  next
    case (LDelta content)
    obtain ds0 b0 sd0 where d0: "drain P rest = (ds0, b0, sd0)"
      by (cases "drain P rest") auto
    with line.prems LDelta have eq: "buf' = b0" "sd = sd0"
      by (simp_all add: drain_step [OF line.hyps])
    from d0 have "(sd0 \<longrightarrow> has_done P (rest @ s)) \<and>
        (has_done P (b0 @ s) \<longrightarrow> has_done P (rest @ s))"
      by (rule line.IH)
    with whole eq show ?thesis by blast
  qed
qed

section \<open>The reading loop and the final flush\<close>

lemma read_loop_events:
  "read_loop P buf es = (ds, r) \<Longrightarrow>
   \<exists>buf' n. n \<le> length (chunks_read es) \<and>
     ds @ flush_all P buf' = flush_all P (buf @ concat (take n (chunks_read es))) \<and>
     (r = Some buf' \<or> r = None \<and> ReadError \<in> set es) \<and>
     (r = Some buf' \<and> \<not> has_done P (buf @ concat (chunks_read es)) \<longrightarrow> n = length (chunks_read es))"
proof (induction P buf es arbitrary: ds r rule: read_loop.induct)
  case (1 P buf)
  then show ?case by auto
next
  case (2 P buf es)
  then show ?case by auto
next
  case (3 P buf c es)
  obtain ds1 buf1 sd1 where d: "drain P (buf @ c) = (ds1, buf1, sd1)"
    by (cases "drain P (buf @ c)") auto
  show ?case
  proof (cases sd1)
    case True
    with d "3.prems" have eq: "ds = ds1" "r = Some buf1" by simp_all
    have "ds1 @ flush_all P buf1 = flush_all P (buf @ c)"
      using drain_flush_all [OF d, of "[]"] by simp
    moreover have "has_done P (buf @ concat (chunks_read (Chunk c # es)))"
      using drain_has_done [OF d, of "concat (chunks_read es)"] True by simp
    ultimately show ?thesis
      using eq by (intro exI [of _ buf1] exI [of _ 1]) simp
  next
    case False
    obtain ds2 r2 where l: "read_loop P buf1 es = (ds2, r2)"
      by (cases "read_loop P buf1 es") auto
    with d False "3.prems" have eq: "ds = ds1 @ ds2" "r = r2" by simp_all
    from "3.IH" [OF d [symmetric] refl False l] obtain buf' n where n:
      "n \<le> length (chunks_read es)"
      "ds2 @ flush_all P buf' = flush_all P (buf1 @ concat (take n (chunks_read es)))"
      "r2 = Some buf' \<or> r2 = None \<and> ReadError \<in> set es"
      "r2 = Some buf' \<and> \<not> has_done P (buf1 @ concat (chunks_read es)) \<longrightarrow> n = length (chunks_read es)"
      by blast
    have "ds1 @ flush_all P (buf1 @ concat (take n (chunks_read es))) =
        flush_all P ((buf @ c) @ concat (take n (chunks_read es)))"
      using d by (rule drain_flush_all)
    with n(2) have a: "ds @ flush_all P buf' =
        flush_all P (buf @ concat (take (Suc n) (chunks_read (Chunk c # es))))"
      by (simp add: eq)
    have "has_done P (buf1 @ concat (chunks_read es)) \<longrightarrow>
        has_done P ((buf @ c) @ concat (chunks_read es))"
      using drain_has_done [OF d, of "concat (chunks_read es)"] by simp
    with n(4) have b: "r2 = Some buf' \<and> \<not> has_done P (buf @ concat (chunks_read (Chunk c # es))) \<longrightarrow>
        Suc n = length (chunks_read (Chunk c # es))"
      by auto
    show ?thesis
      using n(1,3) a b eq(2) by (intro exI [of _ buf'] exI [of _ "Suc n"]) auto
  qed
qed

lemma chunks_read_map [simp]: "chunks_read (map Chunk cs) = cs"
  by (induction cs) auto

lemma deltas_of_append [simp]: "deltas_of (xs @ ys) = deltas_of xs @ deltas_of ys"
  by (induction xs rule: deltas_of.induct) auto

lemma deltas_of_map [simp]: "deltas_of (map OnDelta ds) = ds"
  by (induction ds) auto

lemma streamChat_chunks:
  "\<exists>n\<le>length cs.
     streamChat P (sse_response (map Chunk cs)) =
       map OnDelta (flush_all P (concat (take n cs))) @ [OnDone] \<and>
     (\<not> has_done P (concat cs) \<longrightarrow> n = length cs)"
proof -
  obtain ds r where l: "read_loop P [] (map Chunk cs) = (ds, r)"
    by (cases "read_loop P [] (map Chunk cs)") auto
  from read_loop_events [OF l] obtain buf' n where n: "n \<le> length cs"
    "ds @ flush_all P buf' = flush_all P (concat (take n cs))"
    "r = Some buf' \<or> r = None \<and> ReadError \<in> set (map Chunk cs)"
    "r = Some buf' \<and> \<not> has_done P (concat cs) \<longrightarrow> n = length cs"
    by auto
  from n(3) have r: "r = Some buf'" by auto
  have "streamChat P (sse_response (map Chunk cs)) = map OnDelta (ds @ flush P buf') @ [OnDone]"
    by (simp add: streamChat_def sse_response_def l r)
  with n(1,2,4) r show ?thesis
    by (auto simp: flush_eq_flush_all)
qed

lemma streamChat_no_done:
  assumes "\<not> has_done P (concat cs)"
  shows "streamChat P (sse_response (map Chunk cs)) =
    map OnDelta (flush_all P (concat cs)) @ [OnDone]"
  using streamChat_chunks [of cs P] assms by auto

lemma streamChat_partition:
  assumes "\<not> has_done P (concat cs)"
  shows "streamChat P (sse_response (map Chunk cs)) =
    streamChat P (sse_response [Chunk (concat cs)])"
  using streamChat_no_done [of P cs] streamChat_no_done [of P "[concat cs]"] assms by simp

lemma streamChat_events_deltas:
  "\<exists>n\<le>length (chunks_read es). \<exists>ds'.
     deltas_of (streamChat P (sse_response es)) @ ds' = flush_all P (concat (take n (chunks_read es)))"
proof -
  obtain ds r where l: "read_loop P [] es = (ds, r)"
    by (cases "read_loop P [] es") auto
  from read_loop_events [OF l] obtain buf' n where n: "n \<le> length (chunks_read es)"
    "ds @ flush_all P buf' = flush_all P (concat (take n (chunks_read es)))"
    "r = Some buf' \<or> r = None \<and> ReadError \<in> set es"
    by auto
  show ?thesis
  proof (cases r)
    case None
    then have "deltas_of (streamChat P (sse_response es)) = ds"
      by (simp add: streamChat_def sse_response_def l)
    with n(1,2) show ?thesis by blast
  next
    case (Some b)
    with n(3) have "b = buf'" by simp
    with Some have "deltas_of (streamChat P (sse_response es)) = ds @ flush_all P buf'"
      by (simp add: streamChat_def sse_response_def l flush_eq_flush_all)
    with n(1,2) show ?thesis by (intro exI [of _ n] exI [of _ "[]"]) simp
  qed
qed


lemma flush_all_origin:
  "d \<in> set (flush_all P text) \<Longrightarrow> \<exists>l \<in> set (split_nl text). decode_line P (strip_cr l) = LDelta d"
  by (auto simp: flush_all_def line_deltas_def split: line_result.splits)

lemma decode_line_skip: "prefix '':'' l \<or> trim l = [] \<Longrightarrow> decode_line P l = LSkip"
  by (simp add: decode_line_def)

lemma decode_line_delta:
  "decode_line P l = LDelta d \<Longrightarrow>
   \<not> prefix '':'' l \<and> trim l \<noteq> [] \<and> prefix ''data: '' l \<and>
   (\<exists>parsed. P (trim (drop 6 l)) = Some parsed \<and> delta_content parsed = Some (Some d) \<and> truthy d)"
  by (auto simp: decode_line_def Let_def split: if_splits option.splits)







lemmas run_defs = streamChat_def sse_response_def drain.simps nl_def cr_def delta_payload_def
      delta_record_def strip_cr_def decode_line_def trim_def is_space_def flush_def
      flush_line_def delta_content_def Let_def

lemma sample_parse_x: "sample_parse (delta_payload ''x'') = Some (delta_record ''x'')"
  by (simp add: sample_parse_def delta_payload_def plain_char_def Let_def)





section \<open>The termination token\<close>

text \<open>
  When the first line of the stream is the termination line, the chunks that follow are not
  read, and the rest of the chunk that held the line goes through the final flush.
\<close>

lemma done_line: "decode_line P ''data: [DONE]'' = LDone"
  by (simp add: decode_line_def trim_def is_space_def)

lemma done_first_line:
  "streamChat P (sse_response (Chunk (''data: [DONE]'' @ nl # rest) # later)) =
   map OnDelta (flush P rest) @ [OnDone]"
proof -
  have n: "nl \<notin> set ''data: [DONE]''"
    by (simp add: nl_def)
  have "strip_cr ''data: [DONE]'' = ''data: [DONE]''"
    by (simp add: strip_cr_def cr_def)
  then have "drain P (''data: [DONE]'' @ nl # rest) = ([], rest, True)"
    unfolding drain_step [OF n] by (simp add: done_line)
  then show ?thesis
    by (simp add: streamChat_def sse_response_def)
qed

text \<open>
  C1. A line \<^verbatim>\<open>data: [DONE]\<close> is expected to end decoding with no delta delivered after it.
  The code stops reading, but the final flush still runs over the rest of the buffer: on the
  single chunk holding the termination line followed by a data line with the fragment \<open>x\<close>,
  the fragment is delivered after the termination line was classified.
\<close>

theorem done_then_flush_delivers:
  assumes "P (delta_payload ''x'') = Some (delta_record ''x'')"
  shows "streamChat P (sse_response
           [Chunk (''data: [DONE]'' @ [nl] @ ''data: '' @ delta_payload ''x'' @ [nl])])
         = [OnDelta (JString ''x''), OnDone]"
  using assms
  by (simp add: streamChat_def sse_response_def drain.simps nl_def cr_def delta_payload_def
      delta_record_def strip_cr_def decode_line_def trim_def is_space_def flush_def
      flush_line_def delta_content_def Let_def)

theorem done_then_flush_delivers_witness:
  "sample_parse (delta_payload ''x'') = Some (delta_record ''x'') \<and>
   streamChat sample_parse (sse_response
     [Chunk (''data: [DONE]'' @ [nl] @ ''data: '' @ delta_payload ''x'' @ [nl])])
   = [OnDelta (JString ''x''), OnDone]"
proof -
  have h: "sample_parse (delta_payload ''x'') = Some (delta_record ''x'')"
    by (simp add: sample_parse_def delta_payload_def plain_char_def Let_def)
  show ?thesis
    using h done_then_flush_delivers [of sample_parse] by simp
qed

section \<open>Chunk boundaries\<close>

text \<open>
  C2. The deltas delivered are expected not to depend on how the text is cut into chunks.
  They do when a data line follows the termination line: cut between the two lines, the
  second chunk is never read and nothing is delivered; in one chunk, the final flush
  delivers the fragment \<open>x\<close>.
\<close>

theorem chunk_boundary_after_done:
  assumes "P (delta_payload ''x'') = Some (delta_record ''x'')"
  shows "streamChat P (sse_response
           [Chunk (''data: [DONE]'' @ [nl]), Chunk (''data: '' @ delta_payload ''x'' @ [nl])])
         = [OnDone] \<and>
         streamChat P (sse_response
           [Chunk ((''data: [DONE]'' @ [nl]) @ (''data: '' @ delta_payload ''x'' @ [nl]))])
         = [OnDelta (JString ''x''), OnDone]"
  using assms
  by (simp add: streamChat_def sse_response_def drain.simps nl_def cr_def delta_payload_def
      delta_record_def strip_cr_def decode_line_def trim_def is_space_def flush_def
      flush_line_def delta_content_def Let_def)

theorem chunk_boundary_after_done_witness:
  "sample_parse (delta_payload ''x'') = Some (delta_record ''x'') \<and>
   streamChat sample_parse (sse_response
     [Chunk (''data: [DONE]'' @ [nl]), Chunk (''data: '' @ delta_payload ''x'' @ [nl])])
   = [OnDone] \<and>
   streamChat sample_parse (sse_response
     [Chunk ((''data: [DONE]'' @ [nl]) @ (''data: '' @ delta_payload ''x'' @ [nl]))])
   = [OnDelta (JString ''x''), OnDone]"
  using sample_parse_x chunk_boundary_after_done [of sample_parse] by simp

text \<open>
  Without a termination line in the text, the run does not depend on the chunking: it is
  the line by line reading of the whole text.
\<close>

lemma streamChat_partition_deltas:
  assumes "\<not> has_done P (concat cs)"
  shows "deltas_of (streamChat P (sse_response (map Chunk cs))) = flush_all P (concat cs)"
  using streamChat_no_done [OF assms] by simp

section \<open>Malformed lines\<close>




section \<open>Comments and blank lines\<close>

text \<open>
  C9. A blank line and a line that begins with a colon are skipped by the reading loop and
  by the final flush, and on every stream (with or without a transport failure) each delta
  delivered comes from a line of the text read that is not blank and does not begin with a
  colon.
\<close>

theorem comment_and_blank_lines_never_delivered:
  "(\<forall>l rest. (prefix '':'' l \<or> trim l = []) \<and> nl \<notin> set l \<longrightarrow>
      drain P (l @ nl # rest) = drain P rest \<and> flush_line P l = []) \<and>
   (\<forall>d \<in> set (deltas_of (streamChat P (sse_response es))).
      \<exists>n\<le>length (chunks_read es). \<exists>l \<in> set (split_nl (concat (take n (chunks_read es)))).
        \<not> prefix '':'' l \<and> trim l \<noteq> [] \<and> decode_line P (strip_cr l) = LDelta d)"
proof (intro conjI allI impI ballI)
  fix l rest
  assume a: "(prefix '':'' l \<or> trim l = []) \<and> nl \<notin> set l"
  then have s: "decode_line P (strip_cr l) = LSkip"
    by (simp add: decode_line_strip_cr decode_line_skip)
  from a show "drain P (l @ nl # rest) = drain P rest"
    by (simp add: drain_step s)
  from s show "flush_line P l = []"
    by (simp add: flush_line_eq line_deltas_def)
next
  fix d
  assume d: "d \<in> set (deltas_of (streamChat P (sse_response es)))"
  from streamChat_events_deltas [of es P] obtain n ds' where n: "n \<le> length (chunks_read es)"
    "deltas_of (streamChat P (sse_response es)) @ ds' = flush_all P (concat (take n (chunks_read es)))"
    by blast
  from d n(2) have "d \<in> set (flush_all P (concat (take n (chunks_read es))))"
    by (metis Un_iff set_append)
  then obtain l where l: "l \<in> set (split_nl (concat (take n (chunks_read es))))"
    "decode_line P (strip_cr l) = LDelta d"
    using flush_all_origin by blast
  from l(2) have "decode_line P l = LDelta d"
    by (simp add: decode_line_strip_cr)
  then have "\<not> prefix '':'' l \<and> trim l \<noteq> []"
    using decode_line_delta by blast
  with n(1) l show "\<exists>n\<le>length (chunks_read es). \<exists>l \<in> set (split_nl (concat (take n (chunks_read es)))).
        \<not> prefix '':'' l \<and> trim l \<noteq> [] \<and> decode_line P (strip_cr l) = LDelta d"
    by blast
qed

theorem comment_and_blank_lines_never_delivered_witness:
  "((prefix '':'' '': ping'' \<or> trim '': ping'' = []) \<and> nl \<notin> set '': ping'') \<and>
   drain sample_parse ('': ping'' @ nl # ''data: '' @ delta_payload ''x'' @ [nl]) =
     drain sample_parse (''data: '' @ delta_payload ''x'' @ [nl]) \<and>
   JString ''x'' \<in> set (deltas_of (streamChat sample_parse
     (sse_response [Chunk ('': ping'' @ [nl, nl] @ ''data: '' @ delta_payload ''x'' @ [nl])]))) \<and>
   (\<exists>n\<le>1. \<exists>l \<in> set (split_nl (concat (take n
        ['': ping'' @ [nl, nl] @ ''data: '' @ delta_payload ''x'' @ [nl]]))).
      \<not> prefix '':'' l \<and> trim l \<noteq> [] \<and> decode_line sample_parse (strip_cr l) = LDelta (JString ''x''))"
proof -
  let ?es = "[Chunk ('': ping'' @ [nl, nl] @ ''data: '' @ delta_payload ''x'' @ [nl])]"
  have h: "(prefix '':'' '': ping'' \<or> trim '': ping'' = []) \<and> nl \<notin> set '': ping''"
    by (simp add: nl_def)
  have m: "JString ''x'' \<in> set (deltas_of (streamChat sample_parse (sse_response ?es)))"
    using sample_parse_x by (simp add: run_defs)
  note t = comment_and_blank_lines_never_delivered [of sample_parse ?es]
  from t h have "drain sample_parse ('': ping'' @ nl # ''data: '' @ delta_payload ''x'' @ [nl]) =
     drain sample_parse (''data: '' @ delta_payload ''x'' @ [nl])"
    by blast
  moreover from t m have "\<exists>n\<le>length (chunks_read ?es). \<exists>l \<in> set (split_nl (concat (take n (chunks_read ?es)))).
      \<not> prefix '':'' l \<and> trim l \<noteq> [] \<and> decode_line sample_parse (strip_cr l) = LDelta (JString ''x'')"
    by blast
  ultimately show ?thesis using h m by simp
qed

section \<open>The handler and the fetcher, case by case\<close>

lemma slice_last: "slice_from (- 10) h = drop (length h - 10) h"
proof -
  have "nat (max (int (length h) + - 10) 0) = length h - 10" by arith
  then show ?thesis by (simp add: slice_from_def Let_def)
qed

lemma serve_model_call:
  assumes "serve e req = (resp, fx)" "ModelCall msgs \<in> set fx"
  shows "\<exists>b q u d h dfx. req_method req \<noteq> ''OPTIONS'' \<and> req_json req = Some b \<and>
     question b = Some q \<and> q \<noteq> [] \<and> documentUrl b = Some u \<and> u \<noteq> [] \<and>
     isValidGoogleDocsUrl (new_URL e) u \<and> \<not> falsy (LOVABLE_API_KEY e) \<and>
     conversationHistory b = Some h \<and>
     fetchGoogleDocContent (fetch_doc e) u = (dfx, Inr d) \<and>
     msgs = build_messages q d h \<and> fx = dfx @ [ModelCall msgs] \<and>
     resp = (case fetch_model e msgs of
               ModelThrows \<Rightarrow> UpstreamError
             | ModelResponse response \<Rightarrow>
                 if \<not> response_ok (up_status response) then
                   (if up_status response = 429 then RateLimited
                    else if up_status response = 402 then QuotaExceeded
                    else UpstreamError)
                 else \<lparr>status = 200, content_type = Some ''text/event-stream'',
                       body = StreamBody (up_body response)\<rparr>)"
proof -
  from assms have m: "req_method req \<noteq> ''OPTIONS''"
    by (auto simp: serve_def)
  from assms m obtain b where b: "req_json req = Some b"
    by (cases "req_json req") (auto simp: serve_def)
  from assms m b have f: "\<not> falsy (question b)" "\<not> falsy (documentUrl b)"
    by (auto simp: serve_def split: if_splits)
  then obtain q u where qu: "question b = Some q" "q \<noteq> []" "documentUrl b = Some u" "u \<noteq> []"
    by (auto simp: falsy_def split: option.splits)
  from assms m b f qu have v: "isValidGoogleDocsUrl (new_URL e) u" "\<not> falsy (LOVABLE_API_KEY e)"
    by (auto simp: serve_def Let_def split: if_splits)
  obtain dfx dres where d: "fetchGoogleDocContent (fetch_doc e) u = (dfx, dres)"
    by (cases "fetchGoogleDocContent (fetch_doc e) u") auto
  have nomc: "ModelCall msgs \<notin> set dfx"
    using d by (auto simp: fetchGoogleDocContent_def Let_def
        split: option.splits if_splits doc_fetch.splits)
  from assms m b f qu v d nomc obtain dc where dc: "dres = Inr dc"
    by (cases dres) (auto simp: serve_def Let_def)
  from assms m b f qu v d dc nomc obtain h where h: "conversationHistory b = Some h"
    by (cases "conversationHistory b") (auto simp: serve_def Let_def)
  from assms m b f qu v d dc h nomc
  have "msgs = build_messages q dc h \<and> fx = dfx @ [ModelCall msgs] \<and>
     resp = (case fetch_model e msgs of
               ModelThrows \<Rightarrow> UpstreamError
             | ModelResponse response \<Rightarrow>
                 if \<not> response_ok (up_status response) then
                   (if up_status response = 429 then RateLimited
                    else if up_status response = 402 then QuotaExceeded
                    else UpstreamError)
                 else \<lparr>status = 200, content_type = Some ''text/event-stream'',
                       body = StreamBody (up_body response)\<rparr>)"
    by (auto simp: serve_def Let_def split: model_outcome.splits if_splits)
  with m b qu v d dc h show ?thesis by blast
qed

lemma fetch_effects:
  assumes "fetchGoogleDocContent f u = (fx, res)" "DocFetch x \<in> set fx"
  shows "\<exists>docId. first_match patterns u = Some docId \<and> docId \<noteq> [] \<and> x = exportUrl docId \<and>
    hd fx = DocFetch x"
  using assms
  by (auto simp: fetchGoogleDocContent_def Let_def
      split: option.splits if_splits doc_fetch.splits)

lemma fetch_response:
  assumes "fetchGoogleDocContent f u = (fx, res)" "DocFetch x \<in> set fx" "f x = DocResponse r"
  shows "(fx, res) =
    (if \<not> response_ok (doc_status r) then
       ([DocFetch x],
        Inl (if doc_status r = 404 then DocumentNotFound
             else if doc_status r = 403 then DocumentPrivate
             else FetchFailed (doc_status r)))
     else if (case doc_content_length r of
                None \<Rightarrow> False
              | Some contentLength \<Rightarrow>
                  contentLength \<noteq> [] \<and>
                  (case parseInt10 contentLength of
                     None \<Rightarrow> False
                   | Some n \<Rightarrow> n > int MAX_DOCUMENT_SIZE))
     then ([DocFetch x], Inl DocumentTooLarge)
     else if length (doc_text r) > MAX_DOCUMENT_SIZE
     then ([DocFetch x, DocReadBody], Inl DocumentTooLarge)
     else if doc_text r = [] \<or> length (trim (doc_text r)) = 0
     then ([DocFetch x, DocReadBody], Inl EmptyDocument)
     else ([DocFetch x, DocReadBody], Inr (doc_text r)))"
proof -
  from fetch_effects [OF assms(1,2)] obtain docId where
    d: "first_match patterns u = Some docId" "docId \<noteq> []" "x = exportUrl docId"
    by blast
  with assms(3) have "fetchGoogleDocContent f u = (if \<not> response_ok (doc_status r) then
       ([DocFetch x],
        Inl (if doc_status r = 404 then DocumentNotFound
             else if doc_status r = 403 then DocumentPrivate
             else FetchFailed (doc_status r)))
     else if (case doc_content_length r of
                None \<Rightarrow> False
              | Some contentLength \<Rightarrow>
                  contentLength \<noteq> [] \<and>
                  (case parseInt10 contentLength of
                     None \<Rightarrow> False
                   | Some n \<Rightarrow> n > int MAX_DOCUMENT_SIZE))
     then ([DocFetch x], Inl DocumentTooLarge)
     else if length (doc_text r) > MAX_DOCUMENT_SIZE
     then ([DocFetch x, DocReadBody], Inl DocumentTooLarge)
     else if doc_text r = [] \<or> length (trim (doc_text r)) = 0
     then ([DocFetch x, DocReadBody], Inl EmptyDocument)
     else ([DocFetch x, DocReadBody], Inr (doc_text r)))"
    by (simp add: fetchGoogleDocContent_def Let_def)
  with assms(1) show ?thesis by simp
qed

lemma max_size: "MAX_DOCUMENT_SIZE = 5242880"
  by (simp add: MAX_DOCUMENT_SIZE_def)

lemma parseInt10_Some_nonempty: "parseInt10 h = Some n \<Longrightarrow> h \<noteq> []"
  by (auto simp: parseInt10_def)

lemma match_after_sound:
  "match_after lit u = Some i \<Longrightarrow>
   \<exists>pre post. u = pre @ lit @ i @ post \<and> i \<noteq> [] \<and> list_all id_char i \<and>
     (post = [] \<or> \<not> id_char (hd post))"
proof (induction u)
  case Nil
  then show ?case by simp
next
  case (Cons c cs)
  let ?r = "drop (length lit) (c # cs)"
  show ?case
  proof (cases "prefix lit (c # cs) \<and> takeWhile id_char ?r \<noteq> []")
    case True
    with Cons.prems have i: "i = takeWhile id_char ?r" by simp
    from True have u: "c # cs = lit @ ?r"
      by (metis append_eq_conv_conj prefixE)
    have "?r = i @ dropWhile id_char ?r"
      by (simp add: i)
    with u have "c # cs = [] @ lit @ i @ dropWhile id_char ?r" by simp
    moreover have "list_all id_char i"
      by (auto simp: i list_all_iff dest: set_takeWhileD)
    moreover have "dropWhile id_char ?r = [] \<or> \<not> id_char (hd (dropWhile id_char ?r))"
      using hd_dropWhile [of id_char ?r] by blast
    ultimately show ?thesis using True i by blast
  next
    case False
    with Cons.prems have "match_after lit cs = Some i" by auto
    from Cons.IH [OF this] obtain pre post where
      "cs = pre @ lit @ i @ post" "i \<noteq> []" "list_all id_char i" "post = [] \<or> \<not> id_char (hd post)"
      by blast
    then have "c # cs = (c # pre) @ lit @ i @ post" by simp
    with \<open>i \<noteq> []\<close> \<open>list_all id_char i\<close> \<open>post = [] \<or> \<not> id_char (hd post)\<close>
    show ?thesis by blast
  qed
qed

lemma match_after_complete:
  "id_char c \<Longrightarrow> match_after lit (pre @ lit @ c # rest) \<noteq> None"
proof (induction pre)
  case Nil
  obtain a as where a: "lit @ c # rest = a # as"
    by (cases "lit @ c # rest") auto
  have "prefix lit (a # as)" "takeWhile id_char (drop (length lit) (a # as)) \<noteq> []"
    using Nil by (simp_all add: a [symmetric])
  then have "match_after lit (a # as) \<noteq> None" by simp
  with a show ?case by simp
next
  case (Cons p ps)
  then show ?case by auto
qed

lemma first_match_patterns:
  "first_match patterns u =
     (case match_after ''/document/d/'' u of
        Some i \<Rightarrow> Some i
      | None \<Rightarrow> (case match_after ''id='' u of Some i \<Rightarrow> Some i | None \<Rightarrow> match_bare u))"
  by (simp add: patterns_def split: option.splits)

lemmas sample_defs = sample_env_def sample_request_def sample_doc_def sample_model_def
  sample_URL_def host_char_def

lemmas serve_defs = serve_def falsy_def isValidGoogleDocsUrl_def allowedHosts_def
  fetchGoogleDocContent_def patterns_def id_char_def exportUrl_def response_ok_def
  MAX_DOCUMENT_SIZE_def trim_def is_space_def parseInt10_def is_digit_def digits_value_def Let_def

lemma sample_valid:
  "isValidGoogleDocsUrl sample_URL ''https://docs.google.com/document/d/ABC123/edit''"
  by (simp add: isValidGoogleDocsUrl_def allowedHosts_def sample_URL_def host_char_def Let_def)

lemma sample_fetch_ok:
  "fetchGoogleDocContent (\<lambda>x. sample_doc 200 (Some ''5'') ''Hello'')
     ''https://docs.google.com/document/d/ABC123/edit'' =
   ([DocFetch (exportUrl ''ABC123''), DocReadBody], Inr ''Hello'')"
  by (simp add: sample_defs serve_defs)

lemma sample_serve_ok:
  "serve (sample_env (sample_doc 200 (Some ''5'') ''Hello'') (sample_model st t))
     (sample_request ''Q'' ''https://docs.google.com/document/d/ABC123/edit'' sample_history) =
   (if \<not> response_ok st then
      (if st = 429 then RateLimited else if st = 402 then QuotaExceeded else UpstreamError)
    else \<lparr>status = 200, content_type = Some ''text/event-stream'', body = StreamBody []\<rparr>,
    [DocFetch (exportUrl ''ABC123''), DocReadBody,
     ModelCall (build_messages ''Q'' ''Hello'' sample_history)])"
  using sample_valid sample_fetch_ok
  by (simp add: serve_def sample_env_def sample_request_def sample_model_def falsy_def Let_def)

section \<open>The context sent to the model\<close>

text \<open>
  C3. The messages sent to the model are the system prompt, one user message that frames
  the document text, the last 10 entries of the history in their order (all of them when
  there are fewer), and the question as the last user message. A history of 12 entries
  contributes its last 10. Whenever the handler calls the model, it is with the messages
  built from the question, the fetched document text and the history of the request.
\<close>

theorem context_messages:
  "build_messages q d h =
     \<lparr>msg_role = ''system'', msg_content = SYSTEM_PROMPT\<rparr> #
     \<lparr>msg_role = ''user'',
      msg_content = ''DOCUMENT CONTENT:'' @ [nl, nl] @ d @ [nl, nl] @ ''---'' @ [nl, nl] @
        ''Please answer questions based ONLY on the above document content.''\<rparr> #
     drop (length h - 10) h @ [\<lparr>msg_role = ''user'', msg_content = q\<rparr>] \<and>
   length (drop (length h - 10) h) = min 10 (length h) \<and>
   (length h = 12 \<longrightarrow> drop (length h - 10) h = drop 2 h \<and> length (drop 2 h) = 10) \<and>
   (serve e req = (resp, fx) \<and> ModelCall msgs \<in> set fx \<longrightarrow>
      (\<exists>b q' u d' h'. req_json req = Some b \<and> question b = Some q' \<and> documentUrl b = Some u \<and>
         conversationHistory b = Some h' \<and>
         snd (fetchGoogleDocContent (fetch_doc e) u) = Inr d' \<and>
         msgs = build_messages q' d' h'))"
proof (intro conjI impI)
  show "build_messages q d h =
     \<lparr>msg_role = ''system'', msg_content = SYSTEM_PROMPT\<rparr> #
     \<lparr>msg_role = ''user'',
      msg_content = ''DOCUMENT CONTENT:'' @ [nl, nl] @ d @ [nl, nl] @ ''---'' @ [nl, nl] @
        ''Please answer questions based ONLY on the above document content.''\<rparr> #
     drop (length h - 10) h @ [\<lparr>msg_role = ''user'', msg_content = q\<rparr>]"
    by (simp add: build_messages_def slice_last)
next
  assume "serve e req = (resp, fx) \<and> ModelCall msgs \<in> set fx"
  then show "\<exists>b q' u d' h'. req_json req = Some b \<and> question b = Some q' \<and> documentUrl b = Some u \<and>
         conversationHistory b = Some h' \<and>
         snd (fetchGoogleDocContent (fetch_doc e) u) = Inr d' \<and>
         msgs = build_messages q' d' h'"
    using serve_model_call [of e req resp fx msgs] by fastforce
qed auto

theorem context_messages_witness:
  "length sample_history = 12 \<and>
   ModelCall (build_messages ''Q'' ''Hello'' sample_history) \<in>
     set (snd (serve (sample_env (sample_doc 200 (Some ''5'') ''Hello'') (sample_model 200 []))
       (sample_request ''Q'' ''https://docs.google.com/document/d/ABC123/edit'' sample_history))) \<and>
   build_messages ''Q'' ''Hello'' sample_history =
     \<lparr>msg_role = ''system'', msg_content = SYSTEM_PROMPT\<rparr> #
     \<lparr>msg_role = ''user'',
      msg_content = ''DOCUMENT CONTENT:'' @ [nl, nl] @ ''Hello'' @ [nl, nl] @ ''---'' @ [nl, nl] @
        ''Please answer questions based ONLY on the above document content.''\<rparr> #
     drop 2 sample_history @ [\<lparr>msg_role = ''user'', msg_content = ''Q''\<rparr>]"
proof -
  let ?e = "sample_env (sample_doc 200 (Some ''5'') ''Hello'') (sample_model 200 [])"
  let ?r = "sample_request ''Q'' ''https://docs.google.com/document/d/ABC123/edit'' sample_history"
  have len: "length sample_history = 12"
    by (simp add: sample_history_def)
  have mem: "ModelCall (build_messages ''Q'' ''Hello'' sample_history) \<in> set (snd (serve ?e ?r))"
    by (simp add: sample_serve_ok)
  note t = context_messages [of "''Q''" "''Hello''" sample_history ?e ?r "fst (serve ?e ?r)"
      "snd (serve ?e ?r)" "build_messages ''Q'' ''Hello'' sample_history"]
  from t len have "drop (length sample_history - 10) sample_history = drop 2 sample_history"
    by blast
  with t len mem show ?thesis by simp
qed

section \<open>Validation of the document URL\<close>

text \<open>
  C4. A request (not a preflight, with a JSON body) whose document URL does not parse, or
  whose scheme is not https, or whose host name is neither of the two allowed hosts, is
  answered with status 400 and no outbound operation. The presence check of the two fields
  runs first: when the question and the URL are both non-empty the answer is \<open>InvalidUrl\<close>.
\<close>

theorem invalid_url_rejected:
  assumes "req_method req \<noteq> ''OPTIONS''" and "req_json req = Some b"
    and "documentUrl b = Some u"
    and "new_URL e u = None \<or>
         (\<exists>parsed. new_URL e u = Some parsed \<and>
            (protocol parsed \<noteq> ''https:'' \<or>
             hostname parsed \<notin> {''docs.google.com'', ''drive.google.com''}))"
  shows "snd (serve e req) = [] \<and> status (fst (serve e req)) = 400 \<and>
    (\<not> falsy (question b) \<and> u \<noteq> [] \<longrightarrow> serve e req = (InvalidUrl, [])) \<and>
    body InvalidUrl = ErrorBody ''Invalid document URL. Please provide a valid Google Docs URL.''"
proof -
  from assms(4) have inv: "\<not> isValidGoogleDocsUrl (new_URL e) u"
    by (auto simp: isValidGoogleDocsUrl_def allowedHosts_def)
  show ?thesis
  proof (cases "falsy (question b) \<or> falsy (documentUrl b)")
    case True
    with assms(1,2) have "serve e req = (MissingField, [])"
      by (simp add: serve_def)
    with True assms(3) show ?thesis
      by (auto simp: MissingField_def InvalidUrl_def json_error_def falsy_def)
  next
    case False
    with assms(1,2,3) inv have "serve e req = (InvalidUrl, [])"
      by (simp add: serve_def Let_def)
    then show ?thesis
      by (simp add: InvalidUrl_def json_error_def)
  qed
qed

theorem invalid_url_rejected_witness:
  "sample_URL ''https://evil.com/document/d/ABC123'' =
     Some \<lparr>protocol = ''https:'', hostname = ''evil.com''\<rparr> \<and>
   serve (sample_env DocAbort ModelThrows)
     (sample_request ''hi'' ''https://evil.com/document/d/ABC123'' []) = (InvalidUrl, []) \<and>
   status InvalidUrl = 400"
proof -
  let ?u = "''https://evil.com/document/d/ABC123''"
  let ?e = "sample_env DocAbort ModelThrows"
  let ?r = "sample_request ''hi'' ?u []"
  let ?b = "\<lparr>question = Some ''hi'', documentUrl = Some ?u, conversationHistory = Some []\<rparr>"
  have p: "sample_URL ?u = Some \<lparr>protocol = ''https:'', hostname = ''evil.com''\<rparr>"
    by (simp add: sample_URL_def host_char_def Let_def)
  have 1: "req_method ?r \<noteq> ''OPTIONS''" and 2: "req_json ?r = Some ?b"
    and 3: "documentUrl ?b = Some ?u"
    by (simp_all add: sample_request_def)
  have 4: "new_URL ?e ?u = None \<or>
         (\<exists>parsed. new_URL ?e ?u = Some parsed \<and>
            (protocol parsed \<noteq> ''https:'' \<or>
             hostname parsed \<notin> {''docs.google.com'', ''drive.google.com''}))"
    using p by (simp add: sample_env_def)
  note t = invalid_url_rejected [OF 1 2 3 4]
  have q: "\<not> falsy (question ?b) \<and> ?u \<noteq> []"
    by (simp add: falsy_def)
  from t q have s: "serve ?e ?r = (InvalidUrl, [])"
    by blast
  from t have "status (fst (serve ?e ?r)) = 400"
    by blast
  with s have "status InvalidUrl = 400"
    by simp
  with p s show ?thesis by simp
qed

section \<open>Upstream statuses\<close>

text \<open>
  C5. When the document fetch resolves with a status outside 200 to 299, the error is
  \<open>DocumentNotFound\<close> for 404, \<open>DocumentPrivate\<close> for 403 and \<open>FetchFailed\<close> otherwise. When
  the model call resolves with such a status, the response is \<open>RateLimited\<close> (429) for 429,
  \<open>QuotaExceeded\<close> (402) for 402 and otherwise \<open>UpstreamError\<close> (500), whose body is a fixed
  text that holds nothing of the upstream response.
\<close>

theorem status_mapping:
  "(fetchGoogleDocContent f u = (dfx, res) \<and> DocFetch x \<in> set dfx \<and> f x = DocResponse r \<and>
      \<not> response_ok (doc_status r) \<longrightarrow>
      res = Inl (if doc_status r = 404 then DocumentNotFound
                 else if doc_status r = 403 then DocumentPrivate
                 else FetchFailed (doc_status r))) \<and>
   (serve e req = (resp, fx) \<and> ModelCall msgs \<in> set fx \<and> fetch_model e msgs = ModelResponse m \<and>
      \<not> response_ok (up_status m) \<longrightarrow>
      resp = (if up_status m = 429 then RateLimited
              else if up_status m = 402 then QuotaExceeded
              else UpstreamError)) \<and>
   status RateLimited = 429 \<and> status QuotaExceeded = 402 \<and> status UpstreamError = 500 \<and>
   body UpstreamError = ErrorBody ''An error occurred processing your request''"
proof (intro conjI impI)
  assume a: "fetchGoogleDocContent f u = (dfx, res) \<and> DocFetch x \<in> set dfx \<and> f x = DocResponse r \<and>
      \<not> response_ok (doc_status r)"
  then show "res = Inl (if doc_status r = 404 then DocumentNotFound
                 else if doc_status r = 403 then DocumentPrivate
                 else FetchFailed (doc_status r))"
    using fetch_response [of f u dfx res x r] by simp
next
  assume a: "serve e req = (resp, fx) \<and> ModelCall msgs \<in> set fx \<and> fetch_model e msgs = ModelResponse m \<and>
      \<not> response_ok (up_status m)"
  then show "resp = (if up_status m = 429 then RateLimited
              else if up_status m = 402 then QuotaExceeded
              else UpstreamError)"
    using serve_model_call [of e req resp fx msgs] by auto
qed (simp_all add: RateLimited_def QuotaExceeded_def UpstreamError_def json_error_def)

theorem status_mapping_witness:
  "\<not> response_ok 403 \<and> \<not> response_ok 429 \<and>
   fetchGoogleDocContent (\<lambda>x. sample_doc 403 None [])
     ''https://docs.google.com/document/d/ABC123/edit'' =
     ([DocFetch (exportUrl ''ABC123'')], Inl DocumentPrivate) \<and>
   fst (serve (sample_env (sample_doc 200 (Some ''5'') ''Hello'') (sample_model 429 ''quota details''))
     (sample_request ''Q'' ''https://docs.google.com/document/d/ABC123/edit'' sample_history)) =
     RateLimited \<and>
   status RateLimited = 429"
proof -
  let ?u = "''https://docs.google.com/document/d/ABC123/edit''"
  let ?f = "\<lambda>x::string. sample_doc 403 None []"
  let ?r403 = "\<lparr>doc_status = 403, doc_content_length = None, doc_text = []\<rparr>"
  let ?e = "sample_env (sample_doc 200 (Some ''5'') ''Hello'') (sample_model 429 ''quota details'')"
  let ?r = "sample_request ''Q'' ?u sample_history"
  let ?m = "\<lparr>up_status = 429, up_text = ''quota details'', up_body = []\<rparr>"
  let ?msgs = "build_messages ''Q'' ''Hello'' sample_history"
  have n: "\<not> response_ok 403" "\<not> response_ok 429"
    by (simp_all add: response_ok_def)
  have fx: "DocFetch (exportUrl ''ABC123'') \<in> set (fst (fetchGoogleDocContent ?f ?u))"
    by (simp add: sample_defs serve_defs)
  have mc: "ModelCall ?msgs \<in> set (snd (serve ?e ?r))"
    by (simp add: sample_serve_ok)
  note t = status_mapping [of ?f ?u "fst (fetchGoogleDocContent ?f ?u)"
      "snd (fetchGoogleDocContent ?f ?u)" "exportUrl ''ABC123''" ?r403
      ?e ?r "fst (serve ?e ?r)" "snd (serve ?e ?r)" ?msgs ?m]
  from t fx n have "snd (fetchGoogleDocContent ?f ?u) = Inl DocumentPrivate"
    by (simp add: sample_doc_def)
  moreover from t mc n have "fst (serve ?e ?r) = RateLimited"
    by (simp add: sample_env_def sample_model_def)
  moreover from t have "status RateLimited = 429" by blast
  moreover have "fst (fetchGoogleDocContent ?f ?u) = [DocFetch (exportUrl ''ABC123'')]"
    by (simp add: sample_defs serve_defs)
  ultimately show ?thesis using n by (simp add: prod_eq_iff)
qed

section \<open>The size limit\<close>

text \<open>
  C6. A body whose size exceeds 5242880 after reading is expected to fail with
  \<open>DocumentTooLarge\<close>. The check after reading compares \<^verbatim>\<open>content.length\<close>, the number of
  code units of the decoded text, where the header check and the limit count bytes. A
  response with status 200 and no content-length header whose body is 2621441 times the
  letter e with acute accent is 5242882 bytes on the wire and 2621441 code units: it is
  accepted and returned as the document.
\<close>

theorem multibyte_body_accepted:
  "utf8_size (replicate 2621441 (CHR 0xE9)) = 5242882 \<and>
   MAX_DOCUMENT_SIZE < 5242882 \<and>
   fetchGoogleDocContent (\<lambda>x. sample_doc 200 None (replicate 2621441 (CHR 0xE9)))
     ''https://docs.google.com/document/d/ABC123/edit'' =
   ([DocFetch (exportUrl ''ABC123''), DocReadBody], Inr (replicate 2621441 (CHR 0xE9)))"
  by (simp add: utf8_size_def sum_list_replicate sample_doc_def fetchGoogleDocContent_def
        patterns_def id_char_def response_ok_def MAX_DOCUMENT_SIZE_def trim_def is_space_def Let_def)

text \<open>
  What the two checks do enforce on a response with status 2xx: a content-length header
  that \<^verbatim>\<open>parseInt\<close> reads as a number above 5242880 fails without reading the body, and a
  decoded text of more than 5242880 code units fails.
\<close>

lemma size_checks:
  "(fetchGoogleDocContent f u = (fx, res) \<and> DocFetch x \<in> set fx \<and> f x = DocResponse r \<and>
      response_ok (doc_status r) \<and> doc_content_length r = Some h \<and> parseInt10 h = Some n \<and>
      n > 5242880 \<longrightarrow>
      res = Inl DocumentTooLarge \<and> DocReadBody \<notin> set fx) \<and>
   (fetchGoogleDocContent f u = (fx, res) \<and> DocFetch x \<in> set fx \<and> f x = DocResponse r \<and>
      response_ok (doc_status r) \<and> length (doc_text r) > 5242880 \<longrightarrow>
      res = Inl DocumentTooLarge)"
proof (intro conjI impI)
  assume a: "fetchGoogleDocContent f u = (fx, res) \<and> DocFetch x \<in> set fx \<and> f x = DocResponse r \<and>
      response_ok (doc_status r) \<and> doc_content_length r = Some h \<and> parseInt10 h = Some n \<and>
      n > 5242880"
  then have "h \<noteq> []" using parseInt10_Some_nonempty by blast
  with a fetch_response [of f u fx res x r]
  have "(fx, res) = ([DocFetch x], Inl DocumentTooLarge)"
    by (simp add: max_size)
  then show "res = Inl DocumentTooLarge" "DocReadBody \<notin> set fx" by auto
next
  assume a: "fetchGoogleDocContent f u = (fx, res) \<and> DocFetch x \<in> set fx \<and> f x = DocResponse r \<and>
      response_ok (doc_status r) \<and> length (doc_text r) > 5242880"
  with fetch_response [of f u fx res x r]
  show "res = Inl DocumentTooLarge"
    by (auto simp: max_size split: if_splits)
qed

section \<open>The document identifier\<close>

text \<open>
  C7. The identifier is what the first matching pattern captures, the patterns tried in
  the order path, query parameter, bare identifier. A pattern with a literal captures a
  non-empty, maximal run of identifier characters right after an occurrence of the literal,
  and finds one whenever there is such an occurrence. The URL
  \<^verbatim>\<open>https://docs.google.com/document/d/ABC123/edit\<close> gives \<open>ABC123\<close>. When no pattern matches
  the fetch fails with \<open>InvalidDocumentFormat\<close> and nothing is fetched; otherwise the export
  URL of the identifier is fetched.
\<close>

theorem document_identifier:
  "first_match patterns u =
     (case match_after ''/document/d/'' u of
        Some i \<Rightarrow> Some i
      | None \<Rightarrow> (case match_after ''id='' u of Some i \<Rightarrow> Some i | None \<Rightarrow> match_bare u)) \<and>
   (match_after lit u = Some i \<longrightarrow>
      (\<exists>pre post. u = pre @ lit @ i @ post \<and> i \<noteq> [] \<and> list_all id_char i \<and>
         (post = [] \<or> \<not> id_char (hd post)))) \<and>
   (id_char c \<longrightarrow> match_after lit (pre @ lit @ c # rest) \<noteq> None) \<and>
   match_bare u = (if u \<noteq> [] \<and> list_all id_char u then Some u else None) \<and>
   first_match patterns ''https://docs.google.com/document/d/ABC123/edit'' = Some ''ABC123'' \<and>
   (first_match patterns u = None \<longrightarrow> fetchGoogleDocContent f u = ([], Inl InvalidDocumentFormat)) \<and>
   (first_match patterns u = Some docId \<longrightarrow>
      docId \<noteq> [] \<and> hd (fst (fetchGoogleDocContent f u)) = DocFetch (exportUrl docId))"
proof (intro conjI impI)
  show "first_match patterns ''https://docs.google.com/document/d/ABC123/edit'' = Some ''ABC123''"
    by (simp add: patterns_def id_char_def)
next
  assume "first_match patterns u = None"
  then show "fetchGoogleDocContent f u = ([], Inl InvalidDocumentFormat)"
    by (simp add: fetchGoogleDocContent_def)
next
  assume a: "first_match patterns u = Some docId"
  then show "docId \<noteq> []"
    using match_after_sound [of "''/document/d/''" u docId] match_after_sound [of "''id=''" u docId]
    by (auto simp: first_match_patterns match_bare_def split: option.splits if_splits)
  with a show "hd (fst (fetchGoogleDocContent f u)) = DocFetch (exportUrl docId)"
    by (auto simp: fetchGoogleDocContent_def Let_def split: doc_fetch.splits)
qed (simp_all add: first_match_patterns match_after_sound match_after_complete match_bare_def)

theorem document_identifier_witness:
  "id_char (CHR ''A'') \<and>
   match_after ''/document/d/'' ''https://docs.google.com/document/d/ABC123/edit'' = Some ''ABC123'' \<and>
   first_match patterns ''https://docs.google.com/document/d/ABC123/edit'' = Some ''ABC123'' \<and>
   hd (fst (fetchGoogleDocContent (\<lambda>x. DocAbort) ''https://docs.google.com/document/d/ABC123/edit''))
     = DocFetch (exportUrl ''ABC123'') \<and>
   first_match patterns ''https://docs.google.com/document/d/ABC123/edit?id=XYZ'' = Some ''ABC123'' \<and>
   first_match patterns ''https://drive.google.com/open?id=XYZ'' = Some ''XYZ'' \<and>
   first_match patterns ''https://docs.google.com/'' = None \<and>
   fetchGoogleDocContent (\<lambda>x. DocAbort) ''https://docs.google.com/'' = ([], Inl InvalidDocumentFormat)"
proof -
  let ?u = "''https://docs.google.com/document/d/ABC123/edit''"
  have c: "id_char (CHR ''A'')"
    by (simp add: id_char_def)
  have m: "match_after ''/document/d/'' ?u = Some ''ABC123''"
    by (simp add: id_char_def)
  have n: "first_match patterns ''https://docs.google.com/'' = None"
    by (simp add: patterns_def id_char_def match_bare_def)
  note t = document_identifier [of ?u "''/document/d/''" "''ABC123''"
      "CHR ''A''" "''https://docs.google.com''" "''BC123/edit''" "\<lambda>x. DocAbort" "''ABC123''"]
  note t0 = document_identifier [of "''https://docs.google.com/''" "''/document/d/''" "''ABC123''"
      "CHR ''A''" "''https://docs.google.com''" "''BC123/edit''" "\<lambda>x. DocAbort" "''ABC123''"]
  from t m have f: "first_match patterns ?u = Some ''ABC123''"
    by simp
  with t have "hd (fst (fetchGoogleDocContent (\<lambda>x. DocAbort) ?u)) = DocFetch (exportUrl ''ABC123'')"
    by blast
  moreover from t0 n have "fetchGoogleDocContent (\<lambda>x. DocAbort) ''https://docs.google.com/'' =
      ([], Inl InvalidDocumentFormat)"
    by blast
  moreover have "first_match patterns ''https://docs.google.com/document/d/ABC123/edit?id=XYZ'' =
      Some ''ABC123''"
    by (simp add: patterns_def id_char_def)
  moreover have "first_match patterns ''https://drive.google.com/open?id=XYZ'' = Some ''XYZ''"
    by (simp add: patterns_def id_char_def)
  ultimately show ?thesis using c m f n by simp
qed

section \<open>Missing fields\<close>

text \<open>
  C10. On a request that is not a preflight and has a JSON body, a question or a document
  URL that is the empty string is answered like an absent one: with \<open>MissingField\<close>, status
  400, and no outbound operation.
\<close>

theorem missing_field:
  assumes "req_method req \<noteq> ''OPTIONS''" and "req_json req = Some b"
    and "question b = Some [] \<or> documentUrl b = Some [] \<or> question b = None \<or> documentUrl b = None"
  shows "serve e req = (MissingField, []) \<and> status MissingField = 400 \<and>
    body MissingField = ErrorBody ''Question and document URL are required''"
  using assms
  by (auto simp: serve_def falsy_def MissingField_def json_error_def)

theorem missing_field_witness:
  "serve (sample_env DocAbort ModelThrows)
     (sample_request [] ''https://docs.google.com/document/d/ABC123/edit'' []) = (MissingField, []) \<and>
   serve (sample_env DocAbort ModelThrows) (sample_request ''hi'' [] []) = (MissingField, []) \<and>
   serve (sample_env DocAbort ModelThrows)
     \<lparr>req_method = ''POST'',
      req_json = Some \<lparr>question = None, documentUrl = Some ''x'', conversationHistory = None\<rparr>\<rparr>
     = (MissingField, []) \<and>
   status MissingField = 400"
proof -
  let ?e = "sample_env DocAbort ModelThrows"
  let ?u = "''https://docs.google.com/document/d/ABC123/edit''"
  have a: "serve ?e (sample_request [] ?u []) = (MissingField, []) \<and> status MissingField = 400 \<and>
      body MissingField = ErrorBody ''Question and document URL are required''"
    using missing_field [of "sample_request [] ?u []"
        "\<lparr>question = Some [], documentUrl = Some ?u, conversationHistory = Some []\<rparr>" ?e]
    by (simp add: sample_request_def)
  have b: "serve ?e (sample_request ''hi'' [] []) = (MissingField, []) \<and> status MissingField = 400 \<and>
      body MissingField = ErrorBody ''Question and document URL are required''"
    using missing_field [of "sample_request ''hi'' [] []"
        "\<lparr>question = Some ''hi'', documentUrl = Some [], conversationHistory = Some []\<rparr>" ?e]
    by (simp add: sample_request_def)
  have c: "serve ?e \<lparr>req_method = ''POST'',
      req_json = Some \<lparr>question = None, documentUrl = Some ''x'', conversationHistory = None\<rparr>\<rparr>
      = (MissingField, []) \<and> status MissingField = 400 \<and>
      body MissingField = ErrorBody ''Question and document URL are required''"
    using missing_field [of "\<lparr>req_method = ''POST'',
      req_json = Some \<lparr>question = None, documentUrl = Some ''x'', conversationHistory = None\<rparr>\<rparr>"
        "\<lparr>question = None, documentUrl = Some ''x'', conversationHistory = None\<rparr>" ?e]
    by simp
  from a b c show ?thesis by simp
qed

end
